theory Spec2Isabelle
  imports Main "HOL-Library.Word"
begin

section \<open>Data model of \<open>fs/config.go\<close>\<close>

text \<open>
  Go's \<open>error\<close> values that this file produces or passes on.  \<open>errors.New t\<close> is
  \<open>ErrorString t\<close>; \<open>ErrNotExist\<close> is the one error for which \<open>os.IsNotExist\<close> holds;
  the remaining constructors stand for the other failures of the operating system
  and of the libraries (\<open>encoding/json\<close>, \<open>net/url\<close>).
\<close>

datatype error =
    ErrorString string
  | ErrNotExist
  | ErrPermission
  | SyscallError string
  | JSONError string
  | URLError string

definition errors_New :: "string \<Rightarrow> error" where
  "errors_New text = ErrorString text"

definition os_IsNotExist :: "error \<Rightarrow> bool" where
  "os_IsNotExist err = (err = ErrNotExist)"

text \<open>\<open>url.URL\<close>: the fields of the parsed URL; \<open>Target\<close> reads \<open>Path\<close> only.\<close>

record URL =
  Scheme :: string
  Opaque :: string
  Host :: string
  Path :: string
  RawPath :: string
  ForceQuery :: bool
  RawQuery :: string
  Fragment :: string

text \<open>\<open>type Config struct\<close>.  The pointer \<open>target *url.URL\<close> is an option: \<open>nil\<close> is \<open>None\<close>.\<close>

record Config =
  bucket :: string
  basePath :: string
  cache :: string
  accountID :: string
  accessKey :: string
  secretKey :: string
  secretToken :: string
  target :: "URL option"
  mountpoint :: string
  insecure :: bool
  debug :: bool
  uid :: "32 word"
  gid :: "32 word"
  mode :: "32 word"

text \<open>The zero value of \<open>Config\<close>, from which the option list is applied.\<close>

definition Config_zero :: Config where
  "Config_zero =
     \<lparr>bucket = [], basePath = [], cache = [], accountID = [], accessKey = [],
      secretKey = [], secretToken = [], target = None, mountpoint = [],
      insecure = False, debug = False, uid = 0, gid = 0, mode = 0\<rparr>"

section \<open>Validation\<close>

text \<open>\<open>func (cfg *Config) validate() error\<close>; the \<open>nil\<close> error is \<open>None\<close>.\<close>

definition validate :: "Config \<Rightarrow> error option" where
  "validate cfg =
     (if mountpoint cfg = [] then Some (errors_New ''Mountpoint not set'')
      else if target cfg = None then Some (errors_New ''Target not set'')
      else if bucket cfg = [] then Some (errors_New ''Bucket not set'')
      else None)"

section \<open>Library functions used by \<open>Target\<close>\<close>

text \<open>
  \<open>strings.Split(s, sep)\<close> for a one-byte separator, as \<open>Target\<close> calls it with
  \<open>"/"\<close>: cut at the first occurrence of the separator and go on with what follows it;
  the piece after the last separator (all of \<open>s\<close> if there is none) ends the list.
  The result is never empty.
\<close>

function strings_Split :: "string \<Rightarrow> char \<Rightarrow> string list" where
  "strings_Split s sep =
     (case dropWhile (\<lambda>c. c \<noteq> sep) s of
        [] \<Rightarrow> [s]
      | _ # rest \<Rightarrow> takeWhile (\<lambda>c. c \<noteq> sep) s # strings_Split rest sep)"
  by pat_completeness auto
termination
proof (relation "measure (\<lambda>(s, sep). length s)")
  show "wf (measure (\<lambda>(s, sep). length s))" by simp
next
  fix s :: string and sep x rest
  assume "dropWhile (\<lambda>c. c \<noteq> sep) s = x # rest"
  then have "length rest < length (dropWhile (\<lambda>c. c \<noteq> sep) s)" by simp
  also have "\<dots> \<le> length s" by (rule length_dropWhile_le)
  finally show "((rest, sep), (s, sep)) \<in> measure (\<lambda>(s, sep). length s)" by simp
qed

declare strings_Split.simps [simp del]

text \<open>
  \<open>path.Clean\<close>.  The output buffer \<open>out\<close> (Go's \<open>lazybuf\<close>) is a list whose length is
  the write index \<open>out.w\<close>; \<open>rest\<close> is the unread part \<open>path[r:]\<close> of the input.
  \<open>backtrack\<close> is the inner loop of the \<open>..\<close> case, run after \<open>out.w--\<close>: it moves the
  write index down until it stands on a slash or reaches \<open>dotdot\<close>.
\<close>

function backtrack :: "string \<Rightarrow> nat \<Rightarrow> nat \<Rightarrow> nat" where
  "backtrack buf dotdot w =
     (if w > dotdot \<and> buf ! w \<noteq> CHR ''/'' then backtrack buf dotdot (w - 1) else w)"
  by pat_completeness auto
termination
  by (relation "measure (\<lambda>(buf, dotdot, w). w)") auto

declare backtrack.simps [simp del]

function Clean_loop :: "bool \<Rightarrow> string \<Rightarrow> string \<Rightarrow> nat \<Rightarrow> string" where
  "Clean_loop rooted rest out dotdot =
     (if rest = [] then out
      else if hd rest = CHR ''/'' then Clean_loop rooted (tl rest) out dotdot
      else if hd rest = CHR ''.'' \<and> (length rest = 1 \<or> rest ! 1 = CHR ''/'') then
        Clean_loop rooted (tl rest) out dotdot
      else if hd rest = CHR ''.'' \<and> rest ! 1 = CHR ''.''
              \<and> (length rest = 2 \<or> rest ! 2 = CHR ''/'') then
        (if length out > dotdot then
           Clean_loop rooted (drop 2 rest)
             (take (backtrack out dotdot (length out - 1)) out) dotdot
         else if \<not> rooted then
           (let out' = (if length out > 0 then out @ ''/'' else out) @ ''..''
            in Clean_loop rooted (drop 2 rest) out' (length out'))
         else Clean_loop rooted (drop 2 rest) out dotdot)
      else
        (let out' = (if rooted \<and> length out \<noteq> 1 \<or> \<not> rooted \<and> length out \<noteq> 0
                     then out @ ''/'' else out)
         in Clean_loop rooted (dropWhile (\<lambda>c. c \<noteq> CHR ''/'') rest)
              (out' @ takeWhile (\<lambda>c. c \<noteq> CHR ''/'') rest) dotdot))"
  by pat_completeness auto
termination
proof (relation "measure (\<lambda>(rooted, rest, out, dotdot). length rest)", goal_cases)
  case 1
  show ?case by simp
next
  case (7 rooted rest out dotdot)
  then obtain c t where rest: "rest = c # t" and "c \<noteq> CHR ''/''"
    by (cases rest) auto
  then have "length (dropWhile (\<lambda>c. c \<noteq> CHR ''/'') rest) \<le> length t"
    by (simp add: length_dropWhile_le)
  with rest show ?case by simp
qed (auto simp: neq_Nil_conv)

declare Clean_loop.simps [simp del]

definition path_Clean :: "string \<Rightarrow> string" where
  "path_Clean path =
     (if path = [] then ''.''
      else
        (let rooted = (hd path = CHR ''/'');
             out = (if rooted then Clean_loop rooted (tl path) ''/'' 1
                    else Clean_loop rooted path [] 0)
         in if length out = 0 then ''.'' else out))"

text \<open>
  \<open>path.Join\<close>: the empty string when every element is empty (or there is none);
  otherwise the non-empty elements, separated by slashes, cleaned.
\<close>

fun Join_buf :: "string list \<Rightarrow> string \<Rightarrow> string" where
  "Join_buf [] buf = buf"
| "Join_buf (e # es) buf =
     Join_buf es
       (if length buf > 0 \<or> e \<noteq> [] then
          (if length buf > 0 then buf @ ''/'' else buf) @ e
        else buf)"

definition path_Join :: "string list \<Rightarrow> string" where
  "path_Join elem =
     (if sum_list (map length elem) = 0 then []
      else path_Clean (Join_buf elem []))"

section \<open>The cleaning join, on segments\<close>

text \<open>
  The cleaning join as the specification words it, on the list of segments instead
  of on bytes; it is not taken from the source, and the byte-level \<open>path_Join\<close> above
  is proved equal to it below.  \<open>spec_collapse\<close> reads the segments from left to right
  and keeps a stack (most recent first): an empty segment and a \<open>.\<close> are dropped; a
  \<open>..\<close> removes the segment kept last, unless there is none or it is itself a \<open>..\<close>,
  in which case the \<open>..\<close> is kept; any other segment is kept.  \<open>spec_cleaned_join\<close>
  is empty when every segment is empty, \<open>.\<close> when segments were given but none is
  kept, and the kept segments joined by slashes otherwise.
\<close>

definition slashed :: "string list \<Rightarrow> string" where
  "slashed segs = concat (map (\<lambda>s. CHR ''/'' # s) segs)"

definition join_slash :: "string list \<Rightarrow> string" where
  "join_slash segs = (case segs of [] \<Rightarrow> [] | s # rest \<Rightarrow> s @ slashed rest)"

fun spec_collapse :: "string list \<Rightarrow> string list \<Rightarrow> string list" where
  "spec_collapse kept [] = rev kept"
| "spec_collapse kept (seg # segs) =
     (if seg = [] \<or> seg = ''.'' then spec_collapse kept segs
      else if seg = ''..'' then
        (case kept of
           [] \<Rightarrow> spec_collapse [seg] segs
         | k # kept' \<Rightarrow>
             if k = ''..'' then spec_collapse (seg # kept) segs else spec_collapse kept' segs)
      else spec_collapse (seg # kept) segs)"

definition spec_cleaned_join :: "string list \<Rightarrow> string" where
  "spec_cleaned_join segs =
     (if concat segs = [] then []
      else if spec_collapse [] segs = [] then ''.''
      else join_slash (spec_collapse [] segs))"

text \<open>An ordinary segment: non-empty, without a slash, neither \<open>.\<close> nor \<open>..\<close>.\<close>

definition real_seg :: "string \<Rightarrow> bool" where
  "real_seg k \<longleftrightarrow> k \<noteq> [] \<and> CHR ''/'' \<notin> set k \<and> k \<noteq> ''.'' \<and> k \<noteq> ''..''"

section \<open>The options\<close>

text \<open>
  An option is a \<open>func(*Config)\<close>.  It returns nothing, so the only way it can fail is
  a run-time panic; the model returns the updated \<open>Config\<close> or the panic.
\<close>

datatype panic = IndexOutOfRange

type_synonym config_option = "Config \<Rightarrow> panic + Config"

definition Mountpoint :: "string \<Rightarrow> config_option" where
  "Mountpoint mountpoint' cfg = Inr (cfg\<lparr>mountpoint := mountpoint'\<rparr>)"

text \<open>
  \<open>Target\<close>.  \<open>url.Parse\<close> belongs to Go's library, not to this repository; the model
  takes it as the parameter \<open>url_Parse\<close>.  The slice expressions \<open>u.Path[1:]\<close> and
  \<open>parts[1:]\<close> are in range under the guards around them; \<open>parts[0]\<close> stands under the
  guard \<open>len(parts) >= 0\<close>, which holds of every slice, so it is the index expression
  that panics should \<open>parts\<close> be empty.
\<close>

definition Target :: "(string \<Rightarrow> error + URL) \<Rightarrow> string \<Rightarrow> config_option" where
  "Target url_Parse target' cfg =
     (case url_Parse target' of
        Inl err \<Rightarrow> Inr cfg
      | Inr u \<Rightarrow>
          (let cfg1 = cfg\<lparr>target := Some u\<rparr> in
           if length (Path u) > 1 then
             (let parts = strings_Split (drop 1 (Path u)) CHR ''/'' in
              case (if 0 \<le> int (length parts)
                    then (case parts of
                            [] \<Rightarrow> Inl IndexOutOfRange
                          | p0 # _ \<Rightarrow> Inr (cfg1\<lparr>bucket := p0\<rparr>))
                    else Inr cfg1) of
                Inl p \<Rightarrow> Inl p
              | Inr cfg2 \<Rightarrow>
                  if length parts \<ge> 1
                  then Inr (cfg2\<lparr>basePath := path_Join (drop 1 parts)\<rparr>)
                  else Inr cfg2)
           else Inr cfg1))"

definition CacheDir :: "string \<Rightarrow> config_option" where
  "CacheDir path cfg = Inr (cfg\<lparr>cache := path\<rparr>)"

definition SetGID :: "32 word \<Rightarrow> config_option" where
  "SetGID gid' cfg = Inr (cfg\<lparr>gid := gid'\<rparr>)"

definition SetUID :: "32 word \<Rightarrow> config_option" where
  "SetUID uid' cfg = Inr (cfg\<lparr>uid := uid'\<rparr>)"

definition Insecure :: config_option where
  "Insecure cfg = Inr (cfg\<lparr>insecure := True\<rparr>)"

definition Debug :: config_option where
  "Debug cfg = Inr (cfg\<lparr>debug := True\<rparr>)"

text \<open>
  Applying one option after another to the same \<open>Config\<close>: a panic in the first ends
  the run.
\<close>

definition and_then :: "config_option \<Rightarrow> config_option \<Rightarrow> config_option" where
  "and_then opt1 opt2 cfg =
     (case opt1 cfg of Inl p \<Rightarrow> Inl p | Inr cfg' \<Rightarrow> opt2 cfg')"

text \<open>
  For concrete runs of \<open>Target\<close>: the results of Go's \<open>url.Parse\<close> on the URL strings
  used as examples below.  For \<open>https://h\<close> followed by a path of letters, dots and
  slashes, \<open>url.Parse\<close> returns the scheme, the host and that path unchanged (it does
  not clean the path); it rejects \<open>://h/b\<close>, which has no scheme before the colon.
  Strings outside the table are not used; the lookup gives an error for them.
\<close>

definition https_h :: "string \<Rightarrow> URL" where
  "https_h p = \<lparr>Scheme = ''https'', Opaque = [], Host = ''h'', Path = p, RawPath = [],
                ForceQuery = False, RawQuery = [], Fragment = []\<rparr>"

definition url_Parse_table :: "(string \<times> (error + URL)) list" where
  "url_Parse_table =
     [(''https://h/b/p1/p2'', Inr (https_h ''/b/p1/p2'')),
      (''https://h/bucket/a/b'', Inr (https_h ''/bucket/a/b'')),
      (''https://h/b'', Inr (https_h ''/b'')),
      (''https://h/'', Inr (https_h ''/'')),
      (''https://h'', Inr (https_h [])),
      (''https://h/b//p'', Inr (https_h ''/b//p'')),
      (''https://h/b/./p'', Inr (https_h ''/b/./p'')),
      (''https://h/b/x/../p'', Inr (https_h ''/b/x/../p'')),
      (''https://h/b/.'', Inr (https_h ''/b/.'')),
      (''https://h/b/../p'', Inr (https_h ''/b/../p'')),
      (''://h/b'', Inl (URLError ''missing protocol scheme''))]"

definition url_Parse_sample :: "string \<Rightarrow> error + URL" where
  "url_Parse_sample s =
     (case map_of url_Parse_table s of
        Some r \<Rightarrow> r
      | None \<Rightarrow> Inl (URLError ''not in the table''))"

section \<open>The credential record and its JSON encoding\<close>

text \<open>\<open>type AccessConfig struct\<close>, with the JSON keys of its field tags.\<close>

record AccessConfig =
  Version :: string
  AccessKey :: string
  SecretKey :: string
  SecretToken :: string

text \<open>
  \<open>json.Marshal\<close> of an \<open>AccessConfig\<close>, after Go's \<open>encoding/json\<close>: an object with the
  four tagged keys in the order of the struct, each value a JSON string.  A byte below
  \<open>0x80\<close> is copied when it is in \<open>htmlSafeSet\<close> (printable, and none of the double
  quote, the backslash, the ampersand and the two angle brackets); otherwise it is
  escaped: the quote and the backslash by a backslash, newline, carriage return and
  tab by their letter, every other one as \<open>u00\<close> and two hexadecimal digits (the
  encoder of the Go releases before 1.22, which has no short form for backspace and
  form feed).  From \<open>0x80\<close> on, \<open>utf8.DecodeRuneInString\<close> reads a rune: an invalid
  byte becomes the escape of U+FFFD, the runes U+2028 and U+2029 are escaped, every
  other rune is copied.  The encoder cannot fail on this record; the error branch
  of the caller is kept in the model all the same.
\<close>

definition hex :: string where
  "hex = ''0123456789abcdef''"

definition htmlSafeSet :: "char \<Rightarrow> bool" where
  "htmlSafeSet b =
     (32 \<le> (of_char b :: nat) \<and> (of_char b :: nat) < 128
      \<and> b \<noteq> CHR 0x22 \<and> b \<noteq> CHR ''&'' \<and> b \<noteq> CHR ''<'' \<and> b \<noteq> CHR ''>''
      \<and> b \<noteq> CHR 0x5C)"

definition RuneError :: nat where
  "RuneError = 0xFFFD"

definition utf8_first :: "nat \<Rightarrow> (nat \<times> nat \<times> nat) option" where
  "utf8_first s0 =
     (if 0xC2 \<le> s0 \<and> s0 \<le> 0xDF then Some (2, 0x80, 0xBF)
      else if s0 = 0xE0 then Some (3, 0xA0, 0xBF)
      else if 0xE1 \<le> s0 \<and> s0 \<le> 0xEC then Some (3, 0x80, 0xBF)
      else if s0 = 0xED then Some (3, 0x80, 0x9F)
      else if 0xEE \<le> s0 \<and> s0 \<le> 0xEF then Some (3, 0x80, 0xBF)
      else if s0 = 0xF0 then Some (4, 0x90, 0xBF)
      else if 0xF1 \<le> s0 \<and> s0 \<le> 0xF3 then Some (4, 0x80, 0xBF)
      else if s0 = 0xF4 then Some (4, 0x80, 0x8F)
      else None)"

definition utf8_DecodeRuneInString :: "string \<Rightarrow> nat \<times> nat" where
  "utf8_DecodeRuneInString s =
     (if length s < 1 then (RuneError, 0)
      else
        (let s0 = (of_char (s ! 0) :: nat) in
         case utf8_first s0 of
           None \<Rightarrow> (if s0 < 0x80 then s0 else RuneError, 1)
         | Some (sz, lo, hi) \<Rightarrow>
             if length s < sz then (RuneError, 1)
             else
               (let s1 = (of_char (s ! 1) :: nat) in
                if s1 < lo \<or> hi < s1 then (RuneError, 1)
                else if sz \<le> 2 then ((s0 mod 32) * 64 + s1 mod 64, 2)
                else
                  (let s2 = (of_char (s ! 2) :: nat) in
                   if s2 < 0x80 \<or> 0xBF < s2 then (RuneError, 1)
                   else if sz \<le> 3
                     then ((s0 mod 16) * 4096 + (s1 mod 64) * 64 + s2 mod 64, 3)
                   else
                     (let s3 = (of_char (s ! 3) :: nat) in
                      if s3 < 0x80 \<or> 0xBF < s3 then (RuneError, 1)
                      else ((s0 mod 8) * 262144 + (s1 mod 64) * 4096
                              + (s2 mod 64) * 64 + s3 mod 64, 4))))))"

lemma DecodeRune_size_pos: "s \<noteq> [] \<Longrightarrow> 0 < snd (utf8_DecodeRuneInString s)"
  by (cases s) (auto simp: utf8_DecodeRuneInString_def Let_def split: option.splits)

function encode_string :: "string \<Rightarrow> string" where
  "encode_string s =
     (case s of
        [] \<Rightarrow> []
      | b # rest \<Rightarrow>
          if (of_char b :: nat) < 0x80 then
            (if htmlSafeSet b then b # encode_string rest
             else
               CHR 0x5C #
               (if b = CHR 0x5C \<or> b = CHR 0x22 then [b]
                else if b = CHR 0x0A then ''n''
                else if b = CHR 0x0D then ''r''
                else if b = CHR 0x09 then ''t''
                else ''u00'' @ [hex ! (of_char b div 16), hex ! (of_char b mod 16)])
               @ encode_string rest)
          else
            (let c = fst (utf8_DecodeRuneInString s);
                 size = snd (utf8_DecodeRuneInString s)
             in if c = RuneError \<and> size = 1 then
                  CHR 0x5C # ''ufffd'' @ encode_string (drop size s)
                else if c = 0x2028 \<or> c = 0x2029 then
                  CHR 0x5C # ''u202'' @ [hex ! (c mod 16)] @ encode_string (drop size s)
                else take size s @ encode_string (drop size s)))"
  by pat_completeness auto
termination
proof (relation "measure length", goal_cases)
  case 1
  show ?case by simp
next
  case (2 s b rest)
  then show ?case by simp
next
  case (3 s b rest)
  then show ?case by simp
next
  case (4 s b rest c size)
  with DecodeRune_size_pos [of s] show ?case by simp
next
  case (5 s b rest c size)
  with DecodeRune_size_pos [of s] show ?case by simp
next
  case (6 s b rest c size)
  with DecodeRune_size_pos [of s] show ?case by simp
qed

declare encode_string.simps [simp del]

definition json_string :: "string \<Rightarrow> string" where
  "json_string s = CHR 0x22 # encode_string s @ [CHR 0x22]"

definition json_Marshal :: "AccessConfig \<Rightarrow> error + string" where
  \<open>json_Marshal ac =
     Inr (''{"version":'' @ json_string (Version ac)
          @ '',"accessKey":'' @ json_string (AccessKey ac)
          @ '',"secretKey":'' @ json_string (SecretKey ac)
          @ '',"secretToken":'' @ json_string (SecretToken ac) @ ''}'')\<close>

section \<open>The operating system\<close>

text \<open>
  \<open>InitMinFSConfig\<close> works on the file system, the environment, the clock and the Go
  global \<open>MountTime\<close>.  The \<open>world\<close> holds them: \<open>files\<close> maps the path of a regular file
  to its bytes, \<open>dirs\<close> is the set of directories, \<open>environ\<close> the environment,
  \<open>clock\<close> what \<open>time.Now()\<close> reads, \<open>log_lines\<close> what the logger printed.  \<open>trace\<close>
  lists the system calls made so far, in order.  \<open>fault\<close> is the choice of the
  operating system to fail a call (permissions, a full disk, ...); \<open>torn\<close> says how
  many bytes of a failed \<open>WriteFile\<close> reach the file (\<open>None\<close>: the file could not be
  opened and is untouched).  File modes are arguments of the calls (\<open>0777\<close> is 511,
  \<open>0666\<close> is 438) and are kept in the trace only.
\<close>

datatype syscall =
    MkdirAll string nat
  | Now
  | Stat string
  | WriteFile string string nat
  | ReadFile string

record world =
  files :: "string \<rightharpoonup> string"
  dirs :: "string set"
  environ :: "string \<rightharpoonup> string"
  clock :: nat
  MountTime :: nat
  log_lines :: "string list"
  trace :: "syscall list"
  fault :: "syscall \<Rightarrow> error option"
  torn :: "nat option"

definition called :: "syscall \<Rightarrow> world \<Rightarrow> world" where
  "called c w = w\<lparr>trace := trace w @ [c]\<rparr>"

definition os_MkdirAll :: "string \<Rightarrow> nat \<Rightarrow> world \<Rightarrow> error option \<times> world" where
  "os_MkdirAll path perm w =
     (let w' = called (MkdirAll path perm) w in
      case fault w (MkdirAll path perm) of
        Some err \<Rightarrow> (Some err, w')
      | None \<Rightarrow>
          if path \<in> dom (files w) then (Some (SyscallError ''not a directory''), w')
          else (None, w'\<lparr>dirs := insert path (dirs w)\<rparr>))"

definition time_Now :: "world \<Rightarrow> nat \<times> world" where
  "time_Now w = (clock w, called Now w)"

definition os_Stat :: "string \<Rightarrow> world \<Rightarrow> error option \<times> world" where
  "os_Stat name w =
     (let w' = called (Stat name) w in
      case fault w (Stat name) of
        Some err \<Rightarrow> (Some err, w')
      | None \<Rightarrow>
          if name \<in> dom (files w) \<or> name \<in> dirs w then (None, w')
          else (Some ErrNotExist, w'))"

definition os_Getenv :: "string \<Rightarrow> world \<Rightarrow> string" where
  "os_Getenv key w = (case environ w key of None \<Rightarrow> [] | Some v \<Rightarrow> v)"

definition log_Println :: "string \<Rightarrow> world \<Rightarrow> world" where
  "log_Println line w = w\<lparr>log_lines := log_lines w @ [line]\<rparr>"

definition ioutil_WriteFile ::
    "string \<Rightarrow> string \<Rightarrow> nat \<Rightarrow> world \<Rightarrow> error option \<times> world" where
  "ioutil_WriteFile filename data perm w =
     (let w' = called (WriteFile filename data perm) w in
      case fault w (WriteFile filename data perm) of
        Some err \<Rightarrow>
          (Some err,
           case torn w of
             None \<Rightarrow> w'
           | Some n \<Rightarrow> w'\<lparr>files := (files w)(filename \<mapsto> take n data)\<rparr>)
      | None \<Rightarrow>
          if filename \<in> dirs w then (Some (SyscallError ''is a directory''), w')
          else (None, w'\<lparr>files := (files w)(filename \<mapsto> data)\<rparr>))"

definition ioutil_ReadFile :: "string \<Rightarrow> world \<Rightarrow> (error + string) \<times> world" where
  "ioutil_ReadFile filename w =
     (let w' = called (ReadFile filename) w in
      case fault w (ReadFile filename) of
        Some err \<Rightarrow> (Inl err, w')
      | None \<Rightarrow>
          (case files w filename of
             Some data \<Rightarrow> (Inr data, w')
           | None \<Rightarrow>
               if filename \<in> dirs w then (Inl (SyscallError ''is a directory''), w')
               else (Inl ErrNotExist, w')))"

section \<open>Credential bootstrap\<close>

text \<open>
  \<open>func InitMinFSConfig() (*AccessConfig, error)\<close>.  The paths \<open>globalDBDir\<close> and
  \<open>globalConfigFile\<close> are declared in a file of the repository that is not at hand,
  and \<open>json.Unmarshal\<close> (into a fresh \<open>AccessConfig\<close>) belongs to Go's library: the three
  are parameters.  The result is the error or the record, with the world after the call.
\<close>

definition InitMinFSConfig ::
    "string \<Rightarrow> string \<Rightarrow> (string \<Rightarrow> error + AccessConfig) \<Rightarrow> world
       \<Rightarrow> (error + AccessConfig) \<times> world" where
  "InitMinFSConfig globalDBDir globalConfigFile json_Unmarshal w0 =
     (case os_MkdirAll globalDBDir 511 w0 of
        (Some err, w1) \<Rightarrow> (Inl err, w1)
      | (None, w1) \<Rightarrow>
          (case time_Now w1 of (now, w2) \<Rightarrow>
           let w3 = w2\<lparr>MountTime := now\<rparr> in
           case os_Stat globalConfigFile w3 of
             (Some err, w4) \<Rightarrow>
               if os_IsNotExist err then
                 (let w5 = log_Println
                        ''Initializing config.json for the first time, please update your access credentials.''
                        w4;
                      ac = \<lparr>Version = ''1'',
                            AccessKey = os_Getenv ''MINFS_ACCESS_KEY'' w5,
                            SecretKey = os_Getenv ''MINFS_SECRET_KEY'' w5,
                            SecretToken = os_Getenv ''MINFS_SECRET_TOKEN'' w5\<rparr>
                  in case json_Marshal ac of
                       Inl jerr \<Rightarrow> (Inl jerr, w5)
                     | Inr acBytes \<Rightarrow>
                         (case ioutil_WriteFile globalConfigFile acBytes 438 w5 of
                            (Some err', w6) \<Rightarrow> (Inl err', w6)
                          | (None, w6) \<Rightarrow> (Inr ac, w6)))
               else (Inl err, w4)
           | (None, w4) \<Rightarrow>
               (case ioutil_ReadFile globalConfigFile w4 of
                  (Inl err, w5) \<Rightarrow> (Inl err, w5)
                | (Inr acBytes, w5) \<Rightarrow>
                    (case json_Unmarshal acBytes of
                       Inl err \<Rightarrow> (Inl err, w5)
                     | Inr ac \<Rightarrow>
                         (let accessKey' = os_Getenv ''MINFS_ACCESS_KEY'' w5;
                              secretKey' = os_Getenv ''MINFS_SECRET_KEY'' w5;
                              secretToken' = os_Getenv ''MINFS_SECRET_TOKEN'' w5;
                              ac1 = (if accessKey' \<noteq> [] then ac\<lparr>AccessKey := accessKey'\<rparr>
                                     else ac);
                              ac2 = (if secretKey' \<noteq> [] then ac1\<lparr>SecretKey := secretKey'\<rparr>
                                     else ac1);
                              ac3 = (if secretToken' \<noteq> []
                                     then ac2\<lparr>SecretToken := secretToken'\<rparr> else ac2)
                          in (Inr ac3, w5))))))"

text \<open>
  For concrete runs: the results of \<open>json.Unmarshal\<close> on the file contents used as
  examples below (an absent key leaves its field empty; a truncated object is an
  error), and worlds for a first run, a later run and four failing runs.  Contents
  outside the table are not used; the lookup gives an error for them.
\<close>

definition json_Unmarshal_table :: "(string \<times> (error + AccessConfig)) list" where
  \<open>json_Unmarshal_table =
     [(''{"accessKey":"A","secretKey":"B"}'',
       Inr \<lparr>Version = [], AccessKey = ''A'', SecretKey = ''B'', SecretToken = []\<rparr>),
      (''{"version":"1","accessKey":"A","secretKey":"B","secretToken":""}'',
       Inr \<lparr>Version = ''1'', AccessKey = ''A'', SecretKey = ''B'', SecretToken = []\<rparr>),
      (''{"accessKey":'', Inl (JSONError ''unexpected end of JSON input''))]\<close>

definition json_Unmarshal_sample :: "string \<Rightarrow> error + AccessConfig" where
  "json_Unmarshal_sample data =
     (case map_of json_Unmarshal_table data of
        Some r \<Rightarrow> r
      | None \<Rightarrow> Inl (JSONError ''not in the table''))"

definition world_empty :: world where
  "world_empty =
     \<lparr>files = Map.empty, dirs = {}, environ = Map.empty, clock = 1635638400, MountTime = 0,
      log_lines = [], trace = [], fault = (\<lambda>c. None), torn = None\<rparr>"

definition world_first_run :: world where
  "world_first_run =
     world_empty\<lparr>environ := [''MINFS_ACCESS_KEY'' \<mapsto> ''A'', ''MINFS_SECRET_KEY'' \<mapsto> ''B'']\<rparr>"

definition world_second_run :: world where
  \<open>world_second_run =
     world_empty\<lparr>files := [''/etc/minfs/config.json'' \<mapsto> ''{"accessKey":"A","secretKey":"B"}''],
                 dirs := {''/etc/minfs/db''},
                 environ := [''MINFS_SECRET_KEY'' \<mapsto> ''C'']\<rparr>\<close>

definition world_stat_denied :: world where
  "world_stat_denied =
     world_first_run\<lparr>fault := (\<lambda>c. if c = Stat ''/etc/minfs/config.json''
                                     then Some ErrPermission else None)\<rparr>"

definition world_write_denied :: world where
  "world_write_denied =
     world_first_run\<lparr>fault := (\<lambda>c. case c of WriteFile name data perm \<Rightarrow> Some ErrPermission
                                      | _ \<Rightarrow> None)\<rparr>"

definition world_read_denied :: world where
  "world_read_denied =
     world_second_run\<lparr>fault := (\<lambda>c. if c = ReadFile ''/etc/minfs/config.json''
                                      then Some ErrPermission else None)\<rparr>"

definition world_truncated_file :: world where
  \<open>world_truncated_file =
     world_second_run\<lparr>files := [''/etc/minfs/config.json'' \<mapsto> ''{"accessKey":'']\<rparr>\<close>

section \<open>Properties of validation\<close>

text \<open>
  Claim C1.  For every \<open>Config\<close>, \<open>validate\<close> returns no error exactly when the
  mountpoint is non-empty, the target is non-nil and the bucket is non-empty; when it
  fails, the first failing check, in the order mountpoint, target, bucket, determines
  the error returned.
\<close>

theorem validate_success_iff_and_first_failure:
  "(validate cfg = None \<longleftrightarrow>
      mountpoint cfg \<noteq> [] \<and> target cfg \<noteq> None \<and> bucket cfg \<noteq> [])
   \<and> (mountpoint cfg = [] \<longrightarrow>
        validate cfg = Some (errors_New ''Mountpoint not set''))
   \<and> (mountpoint cfg \<noteq> [] \<and> target cfg = None \<longrightarrow>
        validate cfg = Some (errors_New ''Target not set''))
   \<and> (mountpoint cfg \<noteq> [] \<and> target cfg \<noteq> None \<and> bucket cfg = [] \<longrightarrow>
        validate cfg = Some (errors_New ''Bucket not set''))"
  by (simp add: validate_def)

theorem validate_success_iff_and_first_failure_witness:
  "validate (Config_zero\<lparr>mountpoint := ''/mnt/x'',
                         target := Some \<lparr>Scheme = ''https'', Opaque = [], Host = ''h'',
                                         Path = ''/bucket'', RawPath = [],
                                         ForceQuery = False, RawQuery = [],
                                         Fragment = []\<rparr>,
                         bucket := ''bucket''\<rparr>) = None
   \<and> validate Config_zero = Some (errors_New ''Mountpoint not set'')
   \<and> validate (Config_zero\<lparr>mountpoint := ''/mnt/x''\<rparr>)
       = Some (errors_New ''Target not set'')
   \<and> validate (Config_zero\<lparr>mountpoint := ''/mnt/x'',
                             target := Some \<lparr>Scheme = ''https'', Opaque = [],
                                             Host = ''h'', Path = ''/'', RawPath = [],
                                             ForceQuery = False, RawQuery = [],
                                             Fragment = []\<rparr>\<rparr>)
       = Some (errors_New ''Bucket not set'')"
  using validate_success_iff_and_first_failure
          [of "Config_zero\<lparr>mountpoint := ''/mnt/x'',
                            target := Some \<lparr>Scheme = ''https'', Opaque = [], Host = ''h'',
                                            Path = ''/bucket'', RawPath = [],
                                            ForceQuery = False, RawQuery = [],
                                            Fragment = []\<rparr>,
                            bucket := ''bucket''\<rparr>"]
        validate_success_iff_and_first_failure [of Config_zero]
        validate_success_iff_and_first_failure
          [of "Config_zero\<lparr>mountpoint := ''/mnt/x''\<rparr>"]
        validate_success_iff_and_first_failure
          [of "Config_zero\<lparr>mountpoint := ''/mnt/x'',
                            target := Some \<lparr>Scheme = ''https'', Opaque = [],
                                            Host = ''h'', Path = ''/'', RawPath = [],
                                            ForceQuery = False, RawQuery = [],
                                            Fragment = []\<rparr>\<rparr>"]
  by (simp add: Config_zero_def)

text \<open>
  Claim C5, as stated: \<open>validate\<close> fails with the bucket error exactly when the bucket
  is empty, whatever the other fields hold.  The zero \<open>Config\<close> refutes it: its bucket
  is empty, and the error is the mountpoint one, because the mountpoint check comes
  first.
\<close>

theorem validate_bucket_error_iff_empty_counterexample:
  "bucket Config_zero = []
   \<and> validate Config_zero \<noteq> Some (errors_New ''Bucket not set'')
   \<and> \<not> (validate Config_zero = Some (errors_New ''Bucket not set'')
          \<longleftrightarrow> bucket Config_zero = [])"
  by (simp add: validate_def Config_zero_def errors_New_def)

text \<open>
  Claim C5, amended.  \<open>validate\<close> fails with the bucket error exactly when the bucket
  is empty and the two earlier checks pass, that is, the mountpoint is non-empty and
  the target is non-nil.
\<close>

theorem validate_bucket_error_iff:
  "validate cfg = Some (errors_New ''Bucket not set'')
     \<longleftrightarrow> mountpoint cfg \<noteq> [] \<and> target cfg \<noteq> None \<and> bucket cfg = []"
  by (simp add: validate_def errors_New_def)

theorem validate_bucket_error_iff_witness:
  "validate (Config_zero\<lparr>mountpoint := ''/mnt/x'',
                         target := Some \<lparr>Scheme = ''https'', Opaque = [], Host = ''h'',
                                         Path = ''/'', RawPath = [], ForceQuery = False,
                                         RawQuery = [], Fragment = []\<rparr>\<rparr>)
     = Some (errors_New ''Bucket not set'')
   \<and> validate Config_zero \<noteq> Some (errors_New ''Bucket not set'')"
  using validate_bucket_error_iff
          [of "Config_zero\<lparr>mountpoint := ''/mnt/x'',
                            target := Some \<lparr>Scheme = ''https'', Opaque = [], Host = ''h'',
                                            Path = ''/'', RawPath = [], ForceQuery = False,
                                            RawQuery = [], Fragment = []\<rparr>\<rparr>"]
        validate_bucket_error_iff [of Config_zero]
  by (simp add: Config_zero_def)

section \<open>Properties of \<open>Target\<close>\<close>

lemma strings_Split_not_Nil: "strings_Split s sep \<noteq> []"
  by (subst strings_Split.simps) (simp split: list.split)

lemma Target_parse_fails:
  "url_Parse s = Inl err \<Longrightarrow> Target url_Parse s cfg = Inr cfg"
  by (simp add: Target_def)

lemma Target_short_path:
  "url_Parse s = Inr u \<Longrightarrow> length (Path u) \<le> 1 \<Longrightarrow>
   Target url_Parse s cfg = Inr (cfg\<lparr>target := Some u\<rparr>)"
  by (simp add: Target_def)

lemma Target_long_path:
  assumes "url_Parse s = Inr u" and "length (Path u) > 1"
  shows "Target url_Parse s cfg =
           Inr (cfg\<lparr>target := Some u,
                    bucket := hd (strings_Split (drop 1 (Path u)) CHR ''/''),
                    basePath := path_Join (drop 1 (strings_Split (drop 1 (Path u)) CHR ''/''))\<rparr>)"
proof -
  obtain p0 ps where parts: "strings_Split (drop 1 (Path u)) CHR ''/'' = p0 # ps"
    using strings_Split_not_Nil by (cases "strings_Split (drop 1 (Path u)) CHR ''/''") auto
  show ?thesis using assms parts by (simp add: Target_def Let_def)
qed

text \<open>The index expression \<open>parts[0]\<close> never panics: \<open>strings.Split\<close> returns a non-empty slice.\<close>

lemma Target_never_panics: "\<exists>cfg'. Target url_Parse s cfg = Inr cfg'"
proof (cases "url_Parse s")
  case (Inl err)
  then show ?thesis by (simp add: Target_parse_fails)
next
  case (Inr u)
  then show ?thesis
    by (cases "length (Path u) > 1") (simp_all add: Target_long_path Target_short_path)
qed

lemma Split_b_p1_p2: "strings_Split ''b/p1/p2'' CHR ''/'' = [''b'', ''p1'', ''p2'']"
  by code_simp

lemma Join_p1_p2: "path_Join [''p1'', ''p2''] = ''p1/p2''"
  by code_simp

lemma url_Parse_sample_values:
  "url_Parse_sample ''https://h/b/p1/p2'' = Inr (https_h ''/b/p1/p2'')"
  "url_Parse_sample ''https://h/bucket/a/b'' = Inr (https_h ''/bucket/a/b'')"
  "url_Parse_sample ''https://h/b'' = Inr (https_h ''/b'')"
  "url_Parse_sample ''https://h/'' = Inr (https_h ''/'')"
  "url_Parse_sample ''https://h'' = Inr (https_h [])"
  "url_Parse_sample ''https://h/b//p'' = Inr (https_h ''/b//p'')"
  "url_Parse_sample ''https://h/b/./p'' = Inr (https_h ''/b/./p'')"
  "url_Parse_sample ''https://h/b/x/../p'' = Inr (https_h ''/b/x/../p'')"
  "url_Parse_sample ''https://h/b/.'' = Inr (https_h ''/b/.'')"
  "url_Parse_sample ''https://h/b/../p'' = Inr (https_h ''/b/../p'')"
  "url_Parse_sample ''://h/b'' = Inl (URLError ''missing protocol scheme'')"
  by (simp_all add: url_Parse_sample_def url_Parse_table_def)



text \<open>
  Claim C7.  For every string that \<open>url.Parse\<close> rejects, applying \<open>Target\<close> returns
  the \<open>Config\<close> it was given, every field unchanged, and does not fail.
\<close>

theorem Target_malformed_unchanged:
  "url_Parse s = Inl err \<Longrightarrow> Target url_Parse s cfg = Inr cfg"
  by (simp add: Target_def)

theorem Target_malformed_unchanged_witness:
  "url_Parse_sample ''://h/b'' = Inl (URLError ''missing protocol scheme'')
   \<and> Target url_Parse_sample ''://h/b'' Config_zero = Inr Config_zero"
  using Target_malformed_unchanged [of url_Parse_sample "''://h/b''"
                                       "URLError ''missing protocol scheme''" Config_zero]
  by (simp add: url_Parse_sample_def url_Parse_table_def)

text \<open>
  Claim C6, as stated: after two \<open>Target\<close> options in sequence, the final \<open>target\<close>,
  \<open>bucket\<close> and \<open>basePath\<close> are those derived from the second URL string.  It fails
  when the second string parses to a path of at most one character: \<open>Target\<close> of
  \<open>https://h/b/p1/p2\<close> followed by \<open>Target\<close> of \<open>https://h/\<close> ends with the bucket
  \<open>b\<close> and the base path \<open>p1/p2\<close> of the first URL, whereas the second URL alone
  derives no bucket.  It fails as well when the second string does not parse: then
  even \<open>target\<close> is the first URL.
\<close>

theorem Target_twice_second_wins_counterexample:
  "and_then (Target url_Parse_sample ''https://h/b/p1/p2'')
            (Target url_Parse_sample ''https://h/'') Config_zero
     = Inr (Config_zero\<lparr>target := Some (https_h ''/''), bucket := ''b'',
                         basePath := ''p1/p2''\<rparr>)
   \<and> Target url_Parse_sample ''https://h/'' Config_zero
     = Inr (Config_zero\<lparr>target := Some (https_h ''/'')\<rparr>)
   \<and> bucket (Config_zero\<lparr>target := Some (https_h ''/''), bucket := ''b'',
                          basePath := ''p1/p2''\<rparr>)
     \<noteq> bucket (Config_zero\<lparr>target := Some (https_h ''/'')\<rparr>)
   \<and> and_then (Target url_Parse_sample ''https://h/b/p1/p2'')
              (Target url_Parse_sample ''://h/b'') Config_zero
     = Inr (Config_zero\<lparr>target := Some (https_h ''/b/p1/p2''), bucket := ''b'',
                         basePath := ''p1/p2''\<rparr>)"
proof -
  have t1: "Target url_Parse_sample ''https://h/b/p1/p2'' Config_zero
              = Inr (Config_zero\<lparr>target := Some (https_h ''/b/p1/p2''), bucket := ''b'',
                                  basePath := ''p1/p2''\<rparr>)"
    using url_Parse_sample_values(1)
    by (simp add: Target_long_path https_h_def Split_b_p1_p2 Join_p1_p2)
  have t2: "Target url_Parse_sample ''https://h/'' cfg
              = Inr (cfg\<lparr>target := Some (https_h ''/'')\<rparr>)" for cfg
    using url_Parse_sample_values(4) by (simp add: Target_short_path https_h_def)
  have t3: "Target url_Parse_sample ''://h/b'' cfg = Inr cfg" for cfg
    using url_Parse_sample_values(11) by (simp add: Target_parse_fails)
  have b0: "bucket Config_zero = []"
    by (simp add: Config_zero_def)
  show ?thesis
    by (simp add: and_then_def t1 t2 t3 b0)
qed

text \<open>
  Claim C6, amended.  When two \<open>Target\<close> options are applied in sequence to the same
  \<open>Config\<close>: if the second URL string parses and its path has more than one character,
  the final \<open>target\<close>, \<open>bucket\<close> and \<open>basePath\<close> are those the second string derives on
  its own (from any \<open>Config\<close>); if it parses and its path has at most one character,
  only \<open>target\<close> is overridden and every other field is as the first application left
  it; if it does not parse, the result is that of the first application alone.
\<close>

theorem Target_twice:
  "(\<forall>u2. url_Parse s2 = Inr u2 \<and> length (Path u2) > 1 \<longrightarrow>
      (\<exists>c12 c2. and_then (Target url_Parse s1) (Target url_Parse s2) cfg = Inr c12
                \<and> Target url_Parse s2 cfg0 = Inr c2
                \<and> target c12 = Some u2 \<and> target c12 = target c2
                \<and> bucket c12 = bucket c2 \<and> basePath c12 = basePath c2))
   \<and> (\<forall>u2. url_Parse s2 = Inr u2 \<and> length (Path u2) \<le> 1 \<longrightarrow>
      (\<exists>c1. Target url_Parse s1 cfg = Inr c1
            \<and> and_then (Target url_Parse s1) (Target url_Parse s2) cfg
                = Inr (c1\<lparr>target := Some u2\<rparr>)))
   \<and> (\<forall>err. url_Parse s2 = Inl err \<longrightarrow>
      and_then (Target url_Parse s1) (Target url_Parse s2) cfg = Target url_Parse s1 cfg)"
proof -
  obtain c1 where c1: "Target url_Parse s1 cfg = Inr c1"
    using Target_never_panics by blast
  show ?thesis
    by (simp add: and_then_def c1 Target_long_path Target_short_path Target_parse_fails)
qed

theorem Target_twice_witness:
  "(\<exists>c12 c2. and_then (Target url_Parse_sample ''https://h/bucket/a/b'')
                       (Target url_Parse_sample ''https://h/b/p1/p2'') Config_zero = Inr c12
            \<and> Target url_Parse_sample ''https://h/b/p1/p2'' Config_zero = Inr c2
            \<and> target c12 = Some (https_h ''/b/p1/p2'') \<and> target c12 = target c2
            \<and> bucket c12 = bucket c2 \<and> basePath c12 = basePath c2)
   \<and> (\<exists>c1. Target url_Parse_sample ''https://h/b/p1/p2'' Config_zero = Inr c1
         \<and> and_then (Target url_Parse_sample ''https://h/b/p1/p2'')
                     (Target url_Parse_sample ''https://h/'') Config_zero
             = Inr (c1\<lparr>target := Some (https_h ''/'')\<rparr>))
   \<and> and_then (Target url_Parse_sample ''https://h/b/p1/p2'')
              (Target url_Parse_sample ''://h/b'') Config_zero
       = Target url_Parse_sample ''https://h/b/p1/p2'' Config_zero"
proof -
  have l1: "length (Path (https_h ''/b/p1/p2'')) > 1"
    and l2: "length (Path (https_h ''/'')) \<le> 1"
    by (simp_all add: https_h_def)
  show ?thesis
    using Target_twice [of url_Parse_sample "''https://h/b/p1/p2''" "''https://h/bucket/a/b''"
                            Config_zero Config_zero]
          Target_twice [of url_Parse_sample "''https://h/''" "''https://h/b/p1/p2''"
                            Config_zero Config_zero]
          Target_twice [of url_Parse_sample "''://h/b''" "''https://h/b/p1/p2''"
                            Config_zero Config_zero]
          url_Parse_sample_values(1,4,11) l1 l2
    by blast
qed

section \<open>Properties of \<open>InitMinFSConfig\<close>\<close>

lemma os_MkdirAll_ok:
  assumes "fst (os_MkdirAll path perm w) = None"
  shows "os_MkdirAll path perm w
           = (None, w\<lparr>trace := trace w @ [MkdirAll path perm], dirs := insert path (dirs w)\<rparr>)"
  using assms
  by (auto simp: os_MkdirAll_def called_def Let_def split: option.splits if_splits)

lemma snd_os_Stat: "snd (os_Stat name w) = w\<lparr>trace := trace w @ [Stat name]\<rparr>"
  by (simp add: os_Stat_def called_def Let_def split: option.split)

lemma snd_ioutil_ReadFile:
  "snd (ioutil_ReadFile name w) = w\<lparr>trace := trace w @ [ReadFile name]\<rparr>"
  by (simp add: ioutil_ReadFile_def called_def Let_def split: option.split)

lemma snd_ioutil_WriteFile:
  "MountTime (snd (ioutil_WriteFile name data perm w)) = MountTime w"
  "trace (snd (ioutil_WriteFile name data perm w)) = trace w @ [WriteFile name data perm]"
  by (simp_all add: ioutil_WriteFile_def called_def Let_def split: option.split)

lemma sample_worlds_mkdir:
  "fst (os_MkdirAll ''/etc/minfs/db'' 511 world_stat_denied) = None"
  "fst (os_MkdirAll ''/etc/minfs/db'' 511 world_write_denied) = None"
  "fst (os_MkdirAll ''/etc/minfs/db'' 511 world_read_denied) = None"
  "fst (os_MkdirAll ''/etc/minfs/db'' 511 world_truncated_file) = None"
  by (simp_all add: os_MkdirAll_def world_stat_denied_def world_write_denied_def
      world_read_denied_def world_truncated_file_def world_first_run_def world_second_run_def
      world_empty_def called_def)

lemma sample_worlds_fail:
  "fst (InitMinFSConfig ''/etc/minfs/db'' ''/etc/minfs/config.json'' json_Unmarshal_sample
          world_stat_denied) = Inl ErrPermission"
  "fst (InitMinFSConfig ''/etc/minfs/db'' ''/etc/minfs/config.json'' json_Unmarshal_sample
          world_write_denied) = Inl ErrPermission"
  "fst (InitMinFSConfig ''/etc/minfs/db'' ''/etc/minfs/config.json'' json_Unmarshal_sample
          world_read_denied) = Inl ErrPermission"
  "fst (InitMinFSConfig ''/etc/minfs/db'' ''/etc/minfs/config.json'' json_Unmarshal_sample
          world_truncated_file) = Inl (JSONError ''unexpected end of JSON input'')"
  by (simp_all add: InitMinFSConfig_def os_MkdirAll_def time_Now_def called_def os_Stat_def
      os_IsNotExist_def log_Println_def json_Marshal_def ioutil_WriteFile_def
      ioutil_ReadFile_def json_Unmarshal_sample_def json_Unmarshal_table_def
      world_stat_denied_def world_write_denied_def
      world_read_denied_def world_truncated_file_def world_first_run_def world_second_run_def
      world_empty_def Let_def)

text \<open>
  Claim C2.  On a first run (directory creation succeeds, the credential file does
  not exist, and the write is not failed), with \<open>MINFS_ACCESS_KEY=A\<close> and
  \<open>MINFS_SECRET_KEY=B\<close> in the environment and \<open>MINFS_SECRET_TOKEN\<close> unset,
  \<open>InitMinFSConfig\<close> returns the record with version \<open>1\<close>, access key \<open>A\<close>, secret key
  \<open>B\<close> and an empty token, and the credential file then holds exactly the JSON text
  of that record; no other file changes.
\<close>

theorem InitMinFSConfig_first_run:
  assumes "fst (os_MkdirAll globalDBDir 511 w) = None"
    and "fault w (Stat globalConfigFile) = None"
    and "globalConfigFile \<notin> dom (files w)"
    and "globalConfigFile \<notin> dirs w" and "globalConfigFile \<noteq> globalDBDir"
    and \<open>fault w (WriteFile globalConfigFile
             ''{"version":"1","accessKey":"A","secretKey":"B","secretToken":""}'' 438) = None\<close>
    and "environ w ''MINFS_ACCESS_KEY'' = Some ''A''"
    and "environ w ''MINFS_SECRET_KEY'' = Some ''B''"
    and "environ w ''MINFS_SECRET_TOKEN'' = None"
  shows \<open>fst (InitMinFSConfig globalDBDir globalConfigFile json_Unmarshal w)
           = Inr \<lparr>Version = ''1'', AccessKey = ''A'', SecretKey = ''B'', SecretToken = []\<rparr>
         \<and> files (snd (InitMinFSConfig globalDBDir globalConfigFile json_Unmarshal w))
           = (files w)(globalConfigFile \<mapsto>
                ''{"version":"1","accessKey":"A","secretKey":"B","secretToken":""}'')\<close>
proof -
  have m: \<open>json_Marshal \<lparr>Version = ''1'', AccessKey = ''A'', SecretKey = ''B'', SecretToken = []\<rparr>
            = Inr ''{"version":"1","accessKey":"A","secretKey":"B","secretToken":""}''\<close>
    by code_simp
  show ?thesis
    using assms(2-)
    by (simp add: InitMinFSConfig_def os_MkdirAll_ok [OF assms(1)] time_Now_def called_def
        os_Stat_def os_IsNotExist_def log_Println_def os_Getenv_def m ioutil_WriteFile_def
        Let_def)
qed

theorem InitMinFSConfig_first_run_witness:
  \<open>fst (InitMinFSConfig ''/etc/minfs/db'' ''/etc/minfs/config.json'' json_Unmarshal_sample
          world_first_run)
     = Inr \<lparr>Version = ''1'', AccessKey = ''A'', SecretKey = ''B'', SecretToken = []\<rparr>
   \<and> files (snd (InitMinFSConfig ''/etc/minfs/db'' ''/etc/minfs/config.json''
                   json_Unmarshal_sample world_first_run))
     = (files world_first_run)(''/etc/minfs/config.json'' \<mapsto>
          ''{"version":"1","accessKey":"A","secretKey":"B","secretToken":""}'')\<close>
proof -
  have "fst (os_MkdirAll ''/etc/minfs/db'' 511 world_first_run) = None"
    by (simp add: os_MkdirAll_def world_first_run_def world_empty_def called_def)
  then show ?thesis
    using InitMinFSConfig_first_run [of "''/etc/minfs/db''" world_first_run
            "''/etc/minfs/config.json''" json_Unmarshal_sample]
    by (simp add: world_first_run_def world_empty_def)
qed

text \<open>
  Claim C3.  On a later run, where the credential file exists, is read and parses
  to the record \<open>disk\<close>, each of the three key fields of the returned record is the
  value of its environment variable when that is non-empty and the field of \<open>disk\<close>
  otherwise; the version is that of \<open>disk\<close>; and no file is changed.  The witness is
  the example of the claim: the file holds the access key \<open>A\<close> and the secret key \<open>B\<close>,
  only \<open>MINFS_SECRET_KEY=C\<close> is set, and the record returned has \<open>A\<close> and \<open>C\<close>.
\<close>

theorem InitMinFSConfig_env_overrides:
  assumes "fst (os_MkdirAll globalDBDir 511 w) = None"
    and "fault w (Stat globalConfigFile) = None"
    and "fault w (ReadFile globalConfigFile) = None"
    and "files w globalConfigFile = Some acBytes"
    and "json_Unmarshal acBytes = Inr disk"
  shows "fst (InitMinFSConfig globalDBDir globalConfigFile json_Unmarshal w)
           = Inr \<lparr>Version = Version disk,
                  AccessKey = (if os_Getenv ''MINFS_ACCESS_KEY'' w \<noteq> []
                               then os_Getenv ''MINFS_ACCESS_KEY'' w else AccessKey disk),
                  SecretKey = (if os_Getenv ''MINFS_SECRET_KEY'' w \<noteq> []
                               then os_Getenv ''MINFS_SECRET_KEY'' w else SecretKey disk),
                  SecretToken = (if os_Getenv ''MINFS_SECRET_TOKEN'' w \<noteq> []
                                 then os_Getenv ''MINFS_SECRET_TOKEN'' w
                                 else SecretToken disk)\<rparr>
         \<and> files (snd (InitMinFSConfig globalDBDir globalConfigFile json_Unmarshal w))
           = files w"
  using assms(2-)
  by (cases disk)
     (simp add: InitMinFSConfig_def os_MkdirAll_ok [OF assms(1)] time_Now_def called_def
        os_Stat_def os_Getenv_def ioutil_ReadFile_def Let_def domI)

theorem InitMinFSConfig_env_overrides_witness:
  \<open>files world_second_run ''/etc/minfs/config.json'' = Some ''{"accessKey":"A","secretKey":"B"}''
   \<and> json_Unmarshal_sample ''{"accessKey":"A","secretKey":"B"}''
       = Inr \<lparr>Version = [], AccessKey = ''A'', SecretKey = ''B'', SecretToken = []\<rparr>
   \<and> fst (InitMinFSConfig ''/etc/minfs/db'' ''/etc/minfs/config.json'' json_Unmarshal_sample
            world_second_run)
       = Inr \<lparr>Version = [], AccessKey = ''A'', SecretKey = ''C'', SecretToken = []\<rparr>
   \<and> files (snd (InitMinFSConfig ''/etc/minfs/db'' ''/etc/minfs/config.json''
                   json_Unmarshal_sample world_second_run))
       = files world_second_run\<close>
proof -
  have mk: "fst (os_MkdirAll ''/etc/minfs/db'' 511 world_second_run) = None"
    by (simp add: os_MkdirAll_def world_second_run_def world_empty_def called_def)
  have un: \<open>json_Unmarshal_sample ''{"accessKey":"A","secretKey":"B"}''
       = Inr \<lparr>Version = [], AccessKey = ''A'', SecretKey = ''B'', SecretToken = []\<rparr>\<close>
    by (simp add: json_Unmarshal_sample_def json_Unmarshal_table_def)
  have env: "os_Getenv ''MINFS_ACCESS_KEY'' world_second_run = []"
    "os_Getenv ''MINFS_SECRET_KEY'' world_second_run = ''C''"
    "os_Getenv ''MINFS_SECRET_TOKEN'' world_second_run = []"
    by (simp_all add: os_Getenv_def world_second_run_def world_empty_def)
  have fl: \<open>files world_second_run ''/etc/minfs/config.json''
              = Some ''{"accessKey":"A","secretKey":"B"}''\<close>
    and ft: "fault world_second_run (Stat ''/etc/minfs/config.json'') = None"
       "fault world_second_run (ReadFile ''/etc/minfs/config.json'') = None"
    by (simp_all add: world_second_run_def world_empty_def)
  show ?thesis
    using InitMinFSConfig_env_overrides [of "''/etc/minfs/db''" world_second_run
            "''/etc/minfs/config.json''" _ json_Unmarshal_sample, OF mk ft fl un] fl un
    by (simp add: env)
qed

text \<open>
  Claim C8.  If the \<open>Stat\<close> of the credential file fails with an error other than
  "not found", \<open>InitMinFSConfig\<close> returns that error and no record; the files are
  unchanged, and the calls made are \<open>MkdirAll\<close>, \<open>Now\<close> and \<open>Stat\<close> only: the file is
  neither written nor read.
\<close>

theorem InitMinFSConfig_stat_error:
  assumes "fst (os_MkdirAll globalDBDir 511 w) = None"
    and "fault w (Stat globalConfigFile) = Some err"
    and "\<not> os_IsNotExist err"
  shows "fst (InitMinFSConfig globalDBDir globalConfigFile json_Unmarshal w) = Inl err
         \<and> files (snd (InitMinFSConfig globalDBDir globalConfigFile json_Unmarshal w))
             = files w
         \<and> trace (snd (InitMinFSConfig globalDBDir globalConfigFile json_Unmarshal w))
             = trace w @ [MkdirAll globalDBDir 511, Now, Stat globalConfigFile]"
  using assms(2-)
  by (simp add: InitMinFSConfig_def os_MkdirAll_ok [OF assms(1)] time_Now_def called_def
        os_Stat_def Let_def)

theorem InitMinFSConfig_stat_error_witness:
  "fst (InitMinFSConfig ''/etc/minfs/db'' ''/etc/minfs/config.json'' json_Unmarshal_sample
          world_stat_denied) = Inl ErrPermission
   \<and> files (snd (InitMinFSConfig ''/etc/minfs/db'' ''/etc/minfs/config.json''
                   json_Unmarshal_sample world_stat_denied)) = files world_stat_denied
   \<and> trace (snd (InitMinFSConfig ''/etc/minfs/db'' ''/etc/minfs/config.json''
                   json_Unmarshal_sample world_stat_denied))
       = [MkdirAll ''/etc/minfs/db'' 511, Now, Stat ''/etc/minfs/config.json'']"
proof -
  have mk: "fst (os_MkdirAll ''/etc/minfs/db'' 511 world_stat_denied) = None"
    by (simp add: os_MkdirAll_def world_stat_denied_def world_first_run_def world_empty_def
        called_def)
  have ft: "fault world_stat_denied (Stat ''/etc/minfs/config.json'') = Some ErrPermission"
    and ne: "\<not> os_IsNotExist ErrPermission"
    and tr: "trace world_stat_denied = []"
    by (simp_all add: world_stat_denied_def world_first_run_def world_empty_def
        os_IsNotExist_def)
  show ?thesis
    using InitMinFSConfig_stat_error [OF mk ft ne, of json_Unmarshal_sample]
    by (simp add: tr)
qed

text \<open>
  Claim C9.  Whenever the directory creation succeeds, \<open>MountTime\<close> after the call is
  the time read at the call, whatever \<open>InitMinFSConfig\<close> returns, and the clock is read
  before the credential file is looked at (\<open>Now\<close> precedes \<open>Stat\<close> in the trace).  The
  witness runs the four failures that come after it (stat, write, read, unmarshal):
  each returns an error and leaves \<open>MountTime\<close> updated.
\<close>

theorem InitMinFSConfig_MountTime:
  assumes "fst (os_MkdirAll globalDBDir 511 w) = None"
  shows "MountTime (snd (InitMinFSConfig globalDBDir globalConfigFile json_Unmarshal w))
           = clock w
         \<and> (\<exists>later. trace (snd (InitMinFSConfig globalDBDir globalConfigFile json_Unmarshal w))
                       = trace w @ MkdirAll globalDBDir 511 # Now # Stat globalConfigFile # later)"
  by (simp add: InitMinFSConfig_def os_MkdirAll_ok [OF assms] time_Now_def called_def
        split_beta Let_def snd_os_Stat snd_ioutil_ReadFile snd_ioutil_WriteFile log_Println_def
        json_Marshal_def split: option.split sum.split)

theorem InitMinFSConfig_MountTime_witness:
  "(fst (InitMinFSConfig ''/etc/minfs/db'' ''/etc/minfs/config.json'' json_Unmarshal_sample
           world_stat_denied) = Inl ErrPermission
    \<and> MountTime world_stat_denied = 0
    \<and> MountTime (snd (InitMinFSConfig ''/etc/minfs/db'' ''/etc/minfs/config.json''
                        json_Unmarshal_sample world_stat_denied)) = 1635638400)
   \<and> (fst (InitMinFSConfig ''/etc/minfs/db'' ''/etc/minfs/config.json''
              json_Unmarshal_sample world_write_denied) = Inl ErrPermission
    \<and> MountTime (snd (InitMinFSConfig ''/etc/minfs/db'' ''/etc/minfs/config.json''
                        json_Unmarshal_sample world_write_denied)) = 1635638400)
   \<and> (fst (InitMinFSConfig ''/etc/minfs/db'' ''/etc/minfs/config.json''
              json_Unmarshal_sample world_read_denied) = Inl ErrPermission
    \<and> MountTime (snd (InitMinFSConfig ''/etc/minfs/db'' ''/etc/minfs/config.json''
                        json_Unmarshal_sample world_read_denied)) = 1635638400)
   \<and> (fst (InitMinFSConfig ''/etc/minfs/db'' ''/etc/minfs/config.json''
              json_Unmarshal_sample world_truncated_file)
         = Inl (JSONError ''unexpected end of JSON input'')
    \<and> MountTime (snd (InitMinFSConfig ''/etc/minfs/db'' ''/etc/minfs/config.json''
                        json_Unmarshal_sample world_truncated_file)) = 1635638400)"
proof -
  have ck: "clock world_stat_denied = 1635638400" "clock world_write_denied = 1635638400"
    "clock world_read_denied = 1635638400" "clock world_truncated_file = 1635638400"
    "MountTime world_stat_denied = 0"
    by (simp_all add: world_stat_denied_def world_write_denied_def
      world_read_denied_def world_truncated_file_def world_first_run_def world_second_run_def
      world_empty_def)
  show ?thesis
    using
      InitMinFSConfig_MountTime [OF sample_worlds_mkdir(1),
        of "''/etc/minfs/config.json''" json_Unmarshal_sample]
      InitMinFSConfig_MountTime [OF sample_worlds_mkdir(2),
        of "''/etc/minfs/config.json''" json_Unmarshal_sample]
      InitMinFSConfig_MountTime [OF sample_worlds_mkdir(3),
        of "''/etc/minfs/config.json''" json_Unmarshal_sample]
      InitMinFSConfig_MountTime [OF sample_worlds_mkdir(4),
        of "''/etc/minfs/config.json''" json_Unmarshal_sample]
    by (simp add: ck sample_worlds_fail)
qed


section \<open>\<open>path.Join\<close> is the cleaning join\<close>

lemma slashed_simps [simp]:
  "slashed [] = []" "slashed (s # segs) = CHR ''/'' # s @ slashed segs"
  "slashed (xs @ ys) = slashed xs @ slashed ys"
  by (simp_all add: slashed_def)

lemma slashed_cases: "slashed segs = [] \<or> hd (slashed segs) = CHR ''/''"
  by (cases segs) simp_all

lemma join_slash_snoc:
  "join_slash (ks @ [k]) = (if ks = [] then k else join_slash ks @ CHR ''/'' # k)"
  by (cases ks) (simp_all add: join_slash_def)

lemma Clean_loop_Nil [simp]: "Clean_loop rooted [] out dotdot = out"
  by (subst Clean_loop.simps) simp

lemma Clean_loop_slash:
  "Clean_loop rooted (CHR ''/'' # t) out dotdot = Clean_loop rooted t out dotdot"
  by (subst Clean_loop.simps) simp

lemma Clean_loop_dot:
  assumes "t = [] \<or> hd t = CHR ''/''"
  shows "Clean_loop rooted (CHR ''.'' # t) out dotdot = Clean_loop rooted t out dotdot"
  using assms by (subst Clean_loop.simps) (cases t; simp)

lemma Clean_loop_dotdot_back:
  assumes "t = [] \<or> hd t = CHR ''/''" and "length out > dotdot"
  shows "Clean_loop rooted (CHR ''.'' # CHR ''.'' # t) out dotdot
           = Clean_loop rooted t (take (backtrack out dotdot (length out - 1)) out) dotdot"
  using assms by (subst Clean_loop.simps) (cases t; simp)

lemma Clean_loop_dotdot_keep:
  assumes "t = [] \<or> hd t = CHR ''/''" and "\<not> length out > dotdot"
  shows "Clean_loop False (CHR ''.'' # CHR ''.'' # t) out dotdot
           = Clean_loop False t ((if out \<noteq> [] then out @ ''/'' else out) @ ''..'')
               (length ((if out \<noteq> [] then out @ ''/'' else out) @ ''..''))"
  using assms by (subst Clean_loop.simps) (cases t; simp add: Let_def)

lemma takeWhile_segment:
  "c \<notin> set seg \<Longrightarrow> t = [] \<or> hd t = c \<Longrightarrow> takeWhile (\<lambda>x. x \<noteq> c) (seg @ t) = seg"
  by (induction seg) (cases t; auto)+

lemma dropWhile_segment:
  "c \<notin> set seg \<Longrightarrow> t = [] \<or> hd t = c \<Longrightarrow> dropWhile (\<lambda>x. x \<noteq> c) (seg @ t) = t"
  by (induction seg) (cases t; auto)+

lemma Clean_loop_segment:
  assumes seg: "seg \<noteq> []" "CHR ''/'' \<notin> set seg" "seg \<noteq> ''.''" "seg \<noteq> ''..''"
    and t: "t = [] \<or> hd t = CHR ''/''"
  shows "Clean_loop False (seg @ t) out dotdot
           = Clean_loop False t ((if out \<noteq> [] then out @ ''/'' else out) @ seg) dotdot"
proof -
  obtain c cs where c: "seg = c # cs" using seg(1) by (cases seg) auto
  have tw: "takeWhile (\<lambda>c. c \<noteq> CHR ''/'') (seg @ t) = seg"
    using seg(2) t by (rule takeWhile_segment)
  have dw: "dropWhile (\<lambda>c. c \<noteq> CHR ''/'') (seg @ t) = t"
    using seg(2) t by (rule dropWhile_segment)
  have b2: "\<not> (hd (seg @ t) = CHR ''.'' \<and> (length (seg @ t) = 1 \<or> (seg @ t) ! 1 = CHR ''/''))"
    using seg t c by (cases cs; cases t) auto
  have b3: "\<not> (hd (seg @ t) = CHR ''.'' \<and> (seg @ t) ! 1 = CHR ''.''
              \<and> (length (seg @ t) = 2 \<or> (seg @ t) ! 2 = CHR ''/''))"
  proof (cases cs)
    case Nil
    with seg t c show ?thesis by (cases t) auto
  next
    case (Cons c2 cs2)
    with seg t c show ?thesis by (cases cs2; cases t) auto
  qed
  have b1: "hd (seg @ t) \<noteq> CHR ''/''" "seg @ t \<noteq> []"
    using seg c by auto
  show ?thesis
    by (subst Clean_loop.simps) (simp only: b1 b2 b3 tw dw if_False Let_def, simp)
qed

lemma backtrack_stop:
  assumes k: "CHR ''/'' \<notin> set k" and pre: "pre = [] \<or> last pre = CHR ''/''"
    and dd: "dotdot \<le> length pre - 1"
  shows "length pre - 1 \<le> w \<Longrightarrow> w < length (pre @ k) \<Longrightarrow>
         backtrack (pre @ k) dotdot w = length pre - 1"
proof (induction w)
  case 0
  then show ?case using dd by (subst backtrack.simps) simp
next
  case (Suc w)
  show ?case
  proof (cases "Suc w = length pre - 1")
    case True
    then have "pre \<noteq> []" by auto
    with pre have "(pre @ k) ! (length pre - 1) = CHR ''/''"
      by (simp add: nth_append last_conv_nth)
    with True show ?thesis by (subst backtrack.simps) simp
  next
    case False
    with Suc.prems have w: "length pre - 1 \<le> w" "length pre \<le> Suc w" by auto
    with Suc.prems have "(pre @ k) ! Suc w \<in> set k"
      by (simp add: nth_append)
    with k have ns: "(pre @ k) ! Suc w \<noteq> CHR ''/''" by auto
    have gt: "Suc w > dotdot" using dd w by simp
    have "backtrack (pre @ k) dotdot (Suc w) = backtrack (pre @ k) dotdot w"
      using ns gt by (subst backtrack.simps) simp
    also have "\<dots> = length pre - 1"
      using Suc.IH w Suc.prems by simp
    finally show ?thesis .
  qed
qed

lemma real_seg_nonempty: "real_seg k \<Longrightarrow> k \<noteq> []"
  unfolding real_seg_def by blast

lemma join_slash_Nil_iff:
  "\<forall>k\<in>set ks. k \<noteq> [] \<Longrightarrow> join_slash ks = [] \<longleftrightarrow> ks = []"
  by (cases ks) (simp_all add: join_slash_def)

lemma length_join_slash_append:
  "length (join_slash a) \<le> length (join_slash (a @ b))"
  by (cases a) (simp_all add: join_slash_def)

lemma length_join_slash_snoc:
  "k \<noteq> [] \<Longrightarrow> length (join_slash ks) < length (join_slash (ks @ [k]))"
  by (cases ks) (simp_all add: join_slash_def)

lemma join_slash_dotdots:
  "(if join_slash (replicate n ''..'') \<noteq> [] then join_slash (replicate n ''..'') @ ''/''
    else join_slash (replicate n ''..'')) @ ''..''
   = join_slash (replicate (Suc n) ''..'')"
proof -
  have "replicate (Suc n) ''..'' = replicate n ''..'' @ [''..'']"
    by (simp add: replicate_append_same)
  then show ?thesis
    by (simp only: join_slash_snoc) (simp add: join_slash_Nil_iff)
qed

lemma backtrack_join_slash:
  assumes k: "k \<noteq> []" "CHR ''/'' \<notin> set k"
    and dd: "dotdot \<le> length (join_slash ks)"
  shows "take (backtrack (join_slash (ks @ [k])) dotdot (length (join_slash (ks @ [k])) - 1))
              (join_slash (ks @ [k]))
           = join_slash ks"
proof (cases "ks = []")
  case True
  with dd have "dotdot = 0" by (simp add: join_slash_def)
  with backtrack_stop [of k "[]" dotdot "length k - 1"] k True
  show ?thesis by (simp add: join_slash_def)
next
  case False
  let ?pre = "join_slash ks @ ''/''"
  have out: "join_slash (ks @ [k]) = ?pre @ k"
    using False by (simp add: join_slash_snoc)
  have "backtrack (?pre @ k) dotdot (length (?pre @ k) - 1) = length ?pre - 1"
    using k dd by (intro backtrack_stop) (auto simp: neq_Nil_conv)
  then show ?thesis
    unfolding out by simp
qed

lemma Clean_step_dotdot_keep:
  assumes t: "t = [] \<or> hd t = CHR ''/''"
  shows "Clean_loop False (CHR ''.'' # CHR ''.'' # t) (join_slash (replicate n ''..''))
           (length (join_slash (replicate n ''..'')))
         = Clean_loop False t (join_slash (replicate (Suc n) ''..''))
             (length (join_slash (replicate (Suc n) ''..'')))"
proof -
  define out where "out = join_slash (replicate n ''..'')"
  have keep: "\<not> length out > length out" by simp
  have new: "(if out \<noteq> [] then out @ ''/'' else out) @ ''..''
               = join_slash (replicate (Suc n) ''..'')"
    unfolding out_def by (rule join_slash_dotdots)
  show ?thesis
    using Clean_loop_dotdot_keep [OF t keep]
    by (simp only: new out_def [symmetric])
qed

lemma Clean_step_dotdot_back:
  assumes t: "t = [] \<or> hd t = CHR ''/''"
    and k: "k \<noteq> []" "CHR ''/'' \<notin> set k"
    and dd: "dotdot \<le> length (join_slash ks)"
  shows "Clean_loop False (CHR ''.'' # CHR ''.'' # t) (join_slash (ks @ [k])) dotdot
         = Clean_loop False t (join_slash ks) dotdot"
proof -
  have "length (join_slash ks) < length (join_slash (ks @ [k]))"
    using k(1) by (rule length_join_slash_snoc)
  with dd have gt: "length (join_slash (ks @ [k])) > dotdot" by simp
  show ?thesis
    by (simp only: Clean_loop_dotdot_back [OF t gt] backtrack_join_slash [OF k dd])
qed

lemma Clean_step_real:
  assumes t: "t = [] \<or> hd t = CHR ''/''"
    and seg: "real_seg seg" and ks: "\<forall>k\<in>set ks. k \<noteq> []"
  shows "Clean_loop False (seg @ t) (join_slash ks) dotdot
         = Clean_loop False t (join_slash (ks @ [seg])) dotdot"
proof -
  have s: "seg \<noteq> []" "CHR ''/'' \<notin> set seg" "seg \<noteq> ''.''" "seg \<noteq> ''..''"
    using seg unfolding real_seg_def by blast+
  have ne: "join_slash ks \<noteq> [] \<longleftrightarrow> ks \<noteq> []"
    using ks by (simp only: join_slash_Nil_iff)
  have new: "(if join_slash ks \<noteq> [] then join_slash ks @ ''/'' else join_slash ks) @ seg
               = join_slash (ks @ [seg])"
    unfolding ne join_slash_snoc by (cases "ks = []") (simp_all add: join_slash_def)
  show ?thesis
    by (simp only: Clean_loop_segment [OF s t] new)
qed

lemma collapse_skip:
  "spec_collapse kept ([] # segs) = spec_collapse kept segs"
  "spec_collapse kept (''.'' # segs) = spec_collapse kept segs"
  by simp_all

lemma collapse_dotdot_keep:
  "spec_collapse (replicate n ''..'') (''..'' # segs) = spec_collapse (replicate (Suc n) ''..'') segs"
  by (cases n) simp_all

lemma collapse_dotdot_back:
  "k \<noteq> ''..'' \<Longrightarrow> spec_collapse (k # kept) (''..'' # segs) = spec_collapse kept segs"
  by simp

lemma collapse_real:
  "real_seg seg \<Longrightarrow> spec_collapse kept (seg # segs) = spec_collapse (seg # kept) segs"
  unfolding real_seg_def by simp

lemma Clean_loop_collapse:
  assumes "\<forall>s\<in>set segs. CHR ''/'' \<notin> set s" and "\<forall>k\<in>set real. real_seg k"
  shows "Clean_loop False (slashed segs) (join_slash (replicate n ''..'' @ real))
           (length (join_slash (replicate n ''..'')))
         = join_slash (spec_collapse (rev real @ replicate n ''..'') segs)"
  using assms
proof (induction segs arbitrary: n real)
  case Nil
  then show ?case by simp
next
  case (Cons seg segs)
  let ?dd = "length (join_slash (replicate n ''..''))"
  have t: "slashed segs = [] \<or> hd (slashed segs) = CHR ''/''"
    by (rule slashed_cases)
  have segs: "\<forall>s\<in>set segs. CHR ''/'' \<notin> set s" and seg: "CHR ''/'' \<notin> set seg"
    using Cons.prems(1) by auto
  have start: "Clean_loop False (slashed (seg # segs)) out ?dd
                 = Clean_loop False (seg @ slashed segs) out ?dd" for out
    by (simp add: Clean_loop_slash)
  consider (empty) "seg = []" | (dot) "seg = ''.''" | (dotdot) "seg = ''..''"
    | (real) "real_seg seg"
    using seg unfolding real_seg_def by blast
  then show ?case
  proof cases
    case empty
    have "Clean_loop False (seg @ slashed segs) (join_slash (replicate n ''..'' @ real)) ?dd
            = Clean_loop False (slashed segs) (join_slash (replicate n ''..'' @ real)) ?dd"
      by (simp only: empty append_Nil)
    also have "\<dots> = join_slash (spec_collapse (rev real @ replicate n ''..'') segs)"
      by (rule Cons.IH [OF segs Cons.prems(2)])
    also have "spec_collapse (rev real @ replicate n ''..'') segs
                 = spec_collapse (rev real @ replicate n ''..'') (seg # segs)"
      by (simp only: empty collapse_skip(1))
    finally show ?thesis unfolding start .
  next
    case dot
    have "Clean_loop False (seg @ slashed segs) (join_slash (replicate n ''..'' @ real)) ?dd
            = Clean_loop False (slashed segs) (join_slash (replicate n ''..'' @ real)) ?dd"
      using Clean_loop_dot [OF t] by (simp only: dot append_Cons append_Nil)
    also have "\<dots> = join_slash (spec_collapse (rev real @ replicate n ''..'') segs)"
      by (rule Cons.IH [OF segs Cons.prems(2)])
    also have "spec_collapse (rev real @ replicate n ''..'') segs
                 = spec_collapse (rev real @ replicate n ''..'') (seg # segs)"
      by (simp only: dot collapse_skip(2))
    finally show ?thesis unfolding start .
  next
    case dotdot
    show ?thesis
    proof (cases real rule: rev_cases)
      case Nil
      have "Clean_loop False (seg @ slashed segs) (join_slash (replicate n ''..'' @ real)) ?dd
              = Clean_loop False (slashed segs) (join_slash (replicate (Suc n) ''..''))
                  (length (join_slash (replicate (Suc n) ''..'')))"
        using Clean_step_dotdot_keep [OF t, of n] by (simp add: dotdot Nil)
      also have "\<dots> = join_slash (spec_collapse (replicate (Suc n) ''..'') segs)"
        using Cons.IH [OF segs, of "[]" "Suc n"] by simp
      also have "spec_collapse (replicate (Suc n) ''..'') segs
                   = spec_collapse (rev real @ replicate n ''..'') (seg # segs)"
        unfolding dotdot Nil by (simp only: collapse_dotdot_keep rev.simps append_Nil)
      finally show ?thesis unfolding start .
    next
      case (snoc real' k)
      with Cons.prems(2) have k: "real_seg k" and real': "\<forall>k\<in>set real'. real_seg k"
        by auto
      have k': "k \<noteq> []" "CHR ''/'' \<notin> set k" "k \<noteq> ''..''"
        using k unfolding real_seg_def by blast+
      define ks where "ks = replicate n ''..'' @ real'"
      have out: "join_slash (replicate n ''..'' @ real) = join_slash (ks @ [k])"
        by (simp add: snoc ks_def)
      have dd: "?dd \<le> length (join_slash ks)"
        unfolding ks_def by (rule length_join_slash_append)
      have "Clean_loop False (seg @ slashed segs) (join_slash (replicate n ''..'' @ real)) ?dd
              = Clean_loop False (slashed segs) (join_slash ks) ?dd"
        unfolding out using Clean_step_dotdot_back [OF t k'(1,2) dd] by (simp add: dotdot)
      also have "\<dots> = join_slash (spec_collapse (rev real' @ replicate n ''..'') segs)"
        unfolding ks_def by (rule Cons.IH [OF segs real'])
      also have "spec_collapse (rev real' @ replicate n ''..'') segs
                   = spec_collapse (rev real @ replicate n ''..'') (seg # segs)"
        unfolding dotdot snoc using collapse_dotdot_back [OF k'(3)] by simp
      finally show ?thesis unfolding start .
    qed
  next
    case real
    define ks where "ks = replicate n ''..'' @ real"
    have ne: "\<forall>k\<in>set ks. k \<noteq> []"
      unfolding ks_def using Cons.prems(2) real_seg_nonempty by fastforce
    have all: "\<forall>k\<in>set (real @ [seg]). real_seg k"
      using Cons.prems(2) real by simp
    have "Clean_loop False (seg @ slashed segs) (join_slash (replicate n ''..'' @ real)) ?dd
            = Clean_loop False (slashed segs) (join_slash (ks @ [seg])) ?dd"
      using Clean_step_real [OF t real ne] by (simp only: ks_def)
    also have "\<dots> = Clean_loop False (slashed segs)
                        (join_slash (replicate n ''..'' @ (real @ [seg]))) ?dd"
      by (simp only: ks_def append_assoc)
    also have "\<dots> = join_slash (spec_collapse (rev (real @ [seg]) @ replicate n ''..'') segs)"
      by (rule Cons.IH [OF segs all])
    also have "spec_collapse (rev (real @ [seg]) @ replicate n ''..'') segs
                 = spec_collapse (rev real @ replicate n ''..'') (seg # segs)"
      by (simp only: collapse_real [OF real] rev_append rev.simps append_Nil append_Cons)
    finally show ?thesis unfolding start .
  qed
qed

lemma strings_Split_no_sep: "x \<in> set (strings_Split s sep) \<Longrightarrow> sep \<notin> set x"
proof (induction s sep arbitrary: x rule: strings_Split.induct)
  case (1 s sep)
  show ?case
  proof (cases "dropWhile (\<lambda>c. c \<noteq> sep) s")
    case Nil
    then have "\<forall>c\<in>set s. c \<noteq> sep" by (simp add: dropWhile_eq_Nil_conv)
    moreover have "x = s" using "1.prems" Nil by (subst (asm) strings_Split.simps) simp
    ultimately show ?thesis by auto
  next
    case (Cons c rest)
    then have "x = takeWhile (\<lambda>c. c \<noteq> sep) s \<or> x \<in> set (strings_Split rest sep)"
      using "1.prems" by (subst (asm) strings_Split.simps) simp
    then show ?thesis
    proof
      assume "x = takeWhile (\<lambda>c. c \<noteq> sep) s"
      then show ?thesis by (auto dest: set_takeWhileD)
    next
      assume "x \<in> set (strings_Split rest sep)"
      then show ?thesis using "1.IH" [OF Cons] by simp
    qed
  qed
qed

lemma strings_Split_no_sep_input:
  assumes "sep \<notin> set s"
  shows "strings_Split s sep = [s]"
proof -
  have dw: "dropWhile (\<lambda>c. c \<noteq> sep) s = []"
    using assms by (auto simp: dropWhile_eq_Nil_conv)
  show ?thesis by (subst strings_Split.simps) (simp only: dw list.case)
qed

lemma Join_buf_eq:
  "Join_buf elem buf =
     (if buf = [] then join_slash (dropWhile (\<lambda>e. e = []) elem)
      else buf @ slashed elem)"
  by (induction elem arbitrary: buf) (simp_all add: join_slash_def)

lemma collapse_dropWhile:
  "spec_collapse kept (dropWhile (\<lambda>e. e = []) segs) = spec_collapse kept segs"
  by (induction segs arbitrary: kept) simp_all

lemma collapse_nonempty:
  "[] \<notin> set kept \<Longrightarrow> [] \<notin> set (spec_collapse kept segs)"
proof (induction segs arbitrary: kept)
  case Nil
  then show ?case by simp
next
  case (Cons seg segs)
  show ?case
  proof (cases kept)
    case Nil
    then show ?thesis using Cons.IH [of "[]"] Cons.IH [of "[seg]"] by auto
  next
    case (Cons k kept')
    then show ?thesis
      using Cons.prems Cons.IH [of kept] Cons.IH [of kept'] Cons.IH [of "seg # kept"]
      by auto
  qed
qed

lemma path_Clean_join_slash:
  assumes k: "k \<noteq> []" and ks: "\<forall>e\<in>set (k # ks). CHR ''/'' \<notin> set e"
  shows "path_Clean (join_slash (k # ks))
           = (if spec_collapse [] (k # ks) = [] then ''.'' else join_slash (spec_collapse [] (k # ks)))"
proof -
  obtain c cs where c: "k = c # cs" "c \<noteq> CHR ''/''"
    using k ks by (cases k) auto
  have p: "join_slash (k # ks) \<noteq> []" "hd (join_slash (k # ks)) \<noteq> CHR ''/''"
    using c by (simp_all add: join_slash_def)
  have "Clean_loop False (join_slash (k # ks)) [] 0 = Clean_loop False (slashed (k # ks)) [] 0"
    by (simp add: join_slash_def Clean_loop_slash)
  also have "\<dots> = join_slash (spec_collapse [] (k # ks))"
    using Clean_loop_collapse [of "k # ks" "[]" 0] ks by (simp add: join_slash_def)
  finally have loop:
    "Clean_loop False (join_slash (k # ks)) [] 0 = join_slash (spec_collapse [] (k # ks))" .
  have "join_slash (spec_collapse [] (k # ks)) = [] \<longleftrightarrow> spec_collapse [] (k # ks) = []"
    using collapse_nonempty [of "[]" "k # ks"] by (intro join_slash_Nil_iff) auto
  then show ?thesis
    using p by (simp only: path_Clean_def loop Let_def) simp
qed

lemma path_Join_cleaned:
  assumes "\<forall>e\<in>set elem. CHR ''/'' \<notin> set e"
  shows "path_Join elem = spec_cleaned_join elem"
proof (cases "concat elem = []")
  case True
  then have "sum_list (map length elem) = 0"
    by (metis length_concat list.size(3))
  with True show ?thesis by (simp add: path_Join_def spec_cleaned_join_def)
next
  case False
  then have nz: "sum_list (map length elem) \<noteq> 0"
    by (metis length_concat length_0_conv)
  from False have ne: "dropWhile (\<lambda>e. e = []) elem \<noteq> []"
    by (auto simp: dropWhile_eq_Nil_conv)
  then obtain k ks where dw: "dropWhile (\<lambda>e. e = []) elem = k # ks"
    by (cases "dropWhile (\<lambda>e. e = []) elem") auto
  have k: "k \<noteq> []"
    using hd_dropWhile [OF ne] by (simp add: dw)
  have "set (k # ks) \<subseteq> set elem"
    using set_dropWhileD [of _ "\<lambda>e. e = []" elem] unfolding dw by blast
  with assms have sf: "\<forall>e\<in>set (k # ks). CHR ''/'' \<notin> set e" by blast
  have eq: "spec_collapse [] (k # ks) = spec_collapse [] elem"
    using collapse_dropWhile [of "[]" elem] by (simp only: dw)
  have "path_Join elem = path_Clean (join_slash (k # ks))"
    using nz by (auto simp: path_Join_def Join_buf_eq dw)
  also have "\<dots> = (if spec_collapse [] (k # ks) = [] then ''.''
                     else join_slash (spec_collapse [] (k # ks)))"
    by (rule path_Clean_join_slash [OF k sf])
  also have "\<dots> = spec_cleaned_join elem"
    unfolding eq using False by (auto simp: spec_cleaned_join_def)
  finally show ?thesis .
qed

lemma sample_segments:
  "strings_Split ''b//p'' CHR ''/'' = [''b'', [], ''p'']"
  "strings_Split ''b/./p'' CHR ''/'' = [''b'', ''.'', ''p'']"
  "strings_Split ''b/x/../p'' CHR ''/'' = [''b'', ''x'', ''..'', ''p'']"
  "strings_Split ''b'' CHR ''/'' = [''b'']"
  "strings_Split ''b/.'' CHR ''/'' = [''b'', ''.'']"
  "strings_Split ''b/../p'' CHR ''/'' = [''b'', ''..'', ''p'']"
  by code_simp+

lemma sample_joins:
  "path_Join [''.''] = ''.''"
  "path_Join [''..'', ''p''] = ''../p''"
  by code_simp+

lemma sample_cleaned:
  "spec_cleaned_join [[], ''p''] = ''p''"
  "spec_cleaned_join [''.'', ''p''] = ''p''"
  "spec_cleaned_join [''x'', ''..'', ''p''] = ''p''"
  "spec_cleaned_join [] = []"
  "spec_cleaned_join [''.''] = ''.''"
  "spec_cleaned_join [''..'', ''p''] = ''../p''"
  by code_simp+

text \<open>
  Claim C10, as stated: \<open>.\<close> segments are dropped and \<open>..\<close> segments collapse.  Two
  paths refute it.  For \<open>/b/.\<close> the remaining segment is \<open>.\<close> and the base path is
  \<open>.\<close>, not empty: its one segment is the \<open>.\<close>.  For \<open>/b/../p\<close> the \<open>..\<close> has no
  segment before it to remove and stays: the base path is \<open>../p\<close>, whose first
  segment is the \<open>..\<close>.
\<close>

theorem Target_basePath_dropped_collapsed_counterexample:
  "Target url_Parse_sample ''https://h/b/.'' Config_zero
     = Inr (Config_zero\<lparr>target := Some (https_h ''/b/.''), bucket := ''b'',
                         basePath := ''.''\<rparr>)
   \<and> ''.'' \<in> set (strings_Split ''.'' CHR ''/'')
   \<and> Target url_Parse_sample ''https://h/b/../p'' Config_zero
     = Inr (Config_zero\<lparr>target := Some (https_h ''/b/../p''), bucket := ''b'',
                         basePath := ''../p''\<rparr>)
   \<and> ''..'' \<in> set (strings_Split ''../p'' CHR ''/'')"
proof -
  have "strings_Split ''.'' CHR ''/'' = [''.'']"
    and "strings_Split ''../p'' CHR ''/'' = [''..'', ''p'']"
    by code_simp+
  then show ?thesis
    using url_Parse_sample_values(9,10)
    by (simp add: Target_long_path https_h_def sample_segments sample_joins)
qed

text \<open>
  Claim C10, amended.  For a URL that parses and whose path has more than one
  character, \<open>Target\<close> sets \<open>basePath\<close> to the cleaning join of the segments after the
  first: empty segments and \<open>.\<close> segments are dropped, and a \<open>..\<close> removes the
  segment kept before it, except that a \<open>..\<close> with no ordinary segment kept before it
  is kept, and that the base path is \<open>.\<close> when nothing is kept although some
  remaining segment is non-empty.  A path with exactly one segment (no slash after
  the leading one) yields the empty base path.  The witness runs the paths \<open>/b//p\<close>,
  \<open>/b/./p\<close> and \<open>/b/x/../p\<close>, which all give \<open>p\<close>, the path \<open>/b\<close>, which resets the
  base path to empty, and the two paths of the counterexample.
\<close>

theorem Target_basePath_cleaned_join:
  assumes "url_Parse s = Inr u" and "length (Path u) > 1"
  shows "\<exists>cfg'. Target url_Parse s cfg = Inr cfg'
           \<and> basePath cfg' = spec_cleaned_join (drop 1 (strings_Split (drop 1 (Path u)) CHR ''/''))
           \<and> (CHR ''/'' \<notin> set (drop 1 (Path u)) \<longrightarrow> basePath cfg' = [])"
proof -
  let ?parts = "strings_Split (drop 1 (Path u)) CHR ''/''"
  have "\<forall>e\<in>set (drop 1 ?parts). CHR ''/'' \<notin> set e"
    by (auto dest: in_set_dropD strings_Split_no_sep)
  then have "path_Join (drop 1 ?parts) = spec_cleaned_join (drop 1 ?parts)"
    by (rule path_Join_cleaned)
  moreover have "CHR ''/'' \<notin> set (drop 1 (Path u)) \<Longrightarrow> spec_cleaned_join (drop 1 ?parts) = []"
    by (simp add: strings_Split_no_sep_input spec_cleaned_join_def)
  ultimately show ?thesis
    using Target_long_path [of url_Parse s u cfg] assms by auto
qed

theorem Target_basePath_cleaned_join_witness:
  "(\<exists>cfg'. Target url_Parse_sample ''https://h/b//p'' Config_zero = Inr cfg'
            \<and> basePath cfg' = ''p'')
   \<and> (\<exists>cfg'. Target url_Parse_sample ''https://h/b/./p'' Config_zero = Inr cfg'
            \<and> basePath cfg' = ''p'')
   \<and> (\<exists>cfg'. Target url_Parse_sample ''https://h/b/x/../p'' Config_zero = Inr cfg'
            \<and> basePath cfg' = ''p'')
   \<and> (\<exists>cfg'. Target url_Parse_sample ''https://h/b''
                 (Config_zero\<lparr>basePath := ''old''\<rparr>) = Inr cfg'
            \<and> basePath cfg' = [])
   \<and> (\<exists>cfg'. Target url_Parse_sample ''https://h/b/.'' Config_zero = Inr cfg'
            \<and> basePath cfg' = ''.'')
   \<and> (\<exists>cfg'. Target url_Parse_sample ''https://h/b/../p'' Config_zero = Inr cfg'
            \<and> basePath cfg' = ''../p'')"
proof -
  have len: "length (Path (https_h ''/b//p'')) > 1" "length (Path (https_h ''/b/./p'')) > 1"
    "length (Path (https_h ''/b/x/../p'')) > 1" "length (Path (https_h ''/b'')) > 1"
    "length (Path (https_h ''/b/.'')) > 1" "length (Path (https_h ''/b/../p'')) > 1"
    by (simp_all add: https_h_def)
  show ?thesis
    using
      Target_basePath_cleaned_join [where url_Parse = url_Parse_sample and cfg = Config_zero,
                                    OF url_Parse_sample_values(6) len(1)]
      Target_basePath_cleaned_join [where url_Parse = url_Parse_sample and cfg = Config_zero,
                                    OF url_Parse_sample_values(7) len(2)]
      Target_basePath_cleaned_join [where url_Parse = url_Parse_sample and cfg = Config_zero,
                                    OF url_Parse_sample_values(8) len(3)]
      Target_basePath_cleaned_join [where url_Parse = url_Parse_sample
                                      and cfg = "Config_zero\<lparr>basePath := ''old''\<rparr>",
                                    OF url_Parse_sample_values(3) len(4)]
      Target_basePath_cleaned_join [where url_Parse = url_Parse_sample and cfg = Config_zero,
                                    OF url_Parse_sample_values(9) len(5)]
      Target_basePath_cleaned_join [where url_Parse = url_Parse_sample and cfg = Config_zero,
                                    OF url_Parse_sample_values(10) len(6)]
    by (simp add: https_h_def sample_segments sample_cleaned)
qed


section \<open>Paths of three ordinary segments\<close>

lemma strings_Split_segment:
  assumes "sep \<notin> set a"
  shows "strings_Split (a @ sep # r) sep = a # strings_Split r sep"
proof -
  have "dropWhile (\<lambda>c. c \<noteq> sep) (a @ sep # r) = sep # r"
    using assms dropWhile_segment [of sep a "sep # r"] by simp
  moreover have "takeWhile (\<lambda>c. c \<noteq> sep) (a @ sep # r) = a"
    using assms takeWhile_segment [of sep a "sep # r"] by simp
  ultimately show ?thesis
    by (subst strings_Split.simps) (simp only: list.case)
qed

lemma spec_cleaned_join_two:
  assumes "real_seg p1" and "real_seg p2"
  shows "spec_cleaned_join [p1, p2] = p1 @ CHR ''/'' # p2"
proof -
  have "spec_collapse [] [p1, p2] = [p1, p2]"
    by (simp only: collapse_real [OF assms(1)] collapse_real [OF assms(2)]
          spec_collapse.simps(1) rev.simps append_Nil append_Cons)
  moreover have "concat [p1, p2] \<noteq> []"
    using real_seg_nonempty [OF assms(1)] by simp
  ultimately show ?thesis
    by (simp add: spec_cleaned_join_def join_slash_def)
qed

text \<open>
  With any bucket name free of slashes and any two ordinary segments in place of the
  literal ones, \<open>Target\<close> gives the bucket and the two segments joined by a slash.
\<close>

lemma Target_three_ordinary_segments:
  assumes "url_Parse s = Inr u"
    and "Path u = CHR ''/'' # b @ CHR ''/'' # p1 @ CHR ''/'' # p2"
    and "CHR ''/'' \<notin> set b" and "real_seg p1" and "real_seg p2"
  shows "Target url_Parse s cfg =
           Inr (cfg\<lparr>target := Some u, bucket := b, basePath := p1 @ CHR ''/'' # p2\<rparr>)"
proof -
  have sf: "CHR ''/'' \<notin> set p1" "CHR ''/'' \<notin> set p2"
    using assms(4,5) unfolding real_seg_def by blast+
  have parts: "strings_Split (drop 1 (Path u)) CHR ''/'' = [b, p1, p2]"
    by (simp add: assms(2) strings_Split_segment assms(3) sf strings_Split_no_sep_input)
  have "path_Join [p1, p2] = spec_cleaned_join [p1, p2]"
    using sf by (intro path_Join_cleaned) simp
  then have "path_Join [p1, p2] = p1 @ CHR ''/'' # p2"
    by (simp only: spec_cleaned_join_two [OF assms(4,5)])
  moreover have "length (Path u) > 1"
    by (simp add: assms(2))
  ultimately show ?thesis
    using Target_long_path [of url_Parse s u cfg] assms(1) parts by simp
qed

end
